theory Spec2Isabelle
  imports Main "HOL-Library.Word"
begin

section \<open>The entropy source\<close>

text \<open>
  \<^verbatim>\<open>size_t\<close> is the 64-bit unsigned word of the LP64 platforms that provide
  \<^verbatim>\<open>getrandom\<close>; \<^verbatim>\<open>MAX = ~0\<close> is its largest value (the name \<open>MAX\<close> is
  taken by the library's syntax).
\<close>

unbundle bit_operations_syntax

type_synonym size_t = "64 word"

definition MAX_size :: size_t where
  "MAX_size = NOT 0"

text \<open>
  One call \<^verbatim>\<open>getrandom(&buf, sizeof (buf), 0)\<close> as the program observes it: the
  value returned, the value the call stores into \<^verbatim>\<open>errno\<close> (if it stores one), and
  the contents of \<^verbatim>\<open>buf\<close> after the call. The operating system is the environment:
  a run of the program is given the list of the calls' outcomes, in order.
\<close>

record draw =
  ret :: int
  set_errno :: "int option"
  bytes :: size_t

text \<open>A call that fills the whole of \<^verbatim>\<open>buf\<close> and leaves \<^verbatim>\<open>errno\<close> alone.\<close>

definition full :: "size_t \<Rightarrow> draw" where
  "full b = \<lparr>ret = 8, set_errno = None, bytes = b\<rparr>"

text \<open>A call that returns \<open>-1\<close> with \<^verbatim>\<open>errno\<close> set to \<open>e\<close>.\<close>

definition failed :: "int \<Rightarrow> draw" where
  "failed e = \<lparr>ret = - 1, set_errno = Some e, bytes = 0\<rparr>"

text \<open>A call that delivers only \<open>n\<close> bytes and leaves \<^verbatim>\<open>errno\<close> alone.\<close>

definition short :: "int \<Rightarrow> size_t \<Rightarrow> draw" where
  "short n b = \<lparr>ret = n, set_errno = None, bytes = b\<rparr>"

definition EINTR :: int where
  "EINTR = 4"

definition EIO :: int where
  "EIO = 5"

text \<open>
  What stops a computation from returning: the division \<^verbatim>\<open>MAX / limit\<close> with
  \<^verbatim>\<open>limit = 0\<close>, a write through the null pointer that a failed \<^verbatim>\<open>calloc\<close> returned,
  an access outside an allocated block, and \<open>Blocked\<close>: the listed outcomes are used up
  and the program is still waiting for the entropy source. The first three end the
  process by a signal or leave its behaviour undefined; none of them is a return from
  \<^verbatim>\<open>main\<close>.
\<close>

datatype fault = DivisionByZero | NullDereference | OutOfBounds | Blocked

section \<open>randInt\<close>

text \<open>
  The loop \<^verbatim>\<open>for (errno = 0; getrandom(...) != sizeof (buf) && !errno; );\<close> started
  with the current value of \<^verbatim>\<open>errno\<close>: it calls again as long as the call did not
  return 8 and \<^verbatim>\<open>errno\<close> is still 0. The result is \<^verbatim>\<open>buf\<close>, \<^verbatim>\<open>errno\<close> and the
  outcomes not yet consumed.
\<close>

fun getrandom_loop :: "int \<Rightarrow> draw list \<Rightarrow> fault + (size_t \<times> int \<times> draw list)" where
  "getrandom_loop errno [] = Inl Blocked"
| "getrandom_loop errno (d # ds) =
     (let errno' = (case set_errno d of None \<Rightarrow> errno | Some e \<Rightarrow> e)
      in if ret d \<noteq> 8 \<and> errno' = 0 then getrandom_loop errno' ds
         else Inr (bytes d, errno', ds))"

lemma getrandom_loop_shorter:
  "getrandom_loop e ds = Inr (b, e', ds') \<Longrightarrow> length ds' < length ds"
proof (induction ds arbitrary: e)
  case Nil
  then show ?case by simp
next
  case (Cons d ds)
  let ?e = "case set_errno d of None \<Rightarrow> e | Some x \<Rightarrow> x"
  show ?case
  proof (cases "ret d \<noteq> 8 \<and> ?e = 0")
    case True
    with Cons.prems have "getrandom_loop ?e ds = Inr (b, e', ds')"
      by (simp add: Let_def)
    from Cons.IH [OF this] show ?thesis by simp
  next
    case False
    with Cons.prems have "ds' = ds"
      by (auto simp: Let_def)
    then show ?thesis by simp
  qed
qed

text \<open>
  \<^verbatim>\<open>randInt(limit)\<close>: the result is the returned value, \<^verbatim>\<open>errno\<close> on return and the
  outcomes left. \<^verbatim>\<open>goto restart\<close> is the recursive call.
\<close>

function randInt :: "size_t \<Rightarrow> draw list \<Rightarrow> fault + (size_t \<times> int \<times> draw list)" where
  "randInt limit ds =
     (case getrandom_loop 0 ds of
        Inl f \<Rightarrow> Inl f
      | Inr (buf, errno, ds') \<Rightarrow>
          if errno \<noteq> 0 then Inr (0, errno, ds')
          else if limit = 0 then Inl DivisionByZero
          else if buf > MAX_size div limit * limit then randInt limit ds'
          else Inr (buf mod limit, errno, ds'))"
  by pat_completeness auto
termination
  by (relation "measure (\<lambda>(limit, ds). length ds)")
     (auto dest: getrandom_loop_shorter)

declare randInt.simps [simp del]

text \<open>
  The entropy stream as a sequence of index draws: the first \<open>n\<close> calls
  \<^verbatim>\<open>randInt(limit)\<close> made one after the other, up to the first that returns with
  \<^verbatim>\<open>errno\<close> set. The result is that \<^verbatim>\<open>errno\<close> (0 when all \<open>n\<close> calls succeeded), the
  indices that the calls before it returned, and the outcomes left.
\<close>

fun index_draws :: "size_t \<Rightarrow> nat \<Rightarrow> draw list \<Rightarrow> fault + (int \<times> size_t list \<times> draw list)" where
  "index_draws limit 0 ds = Inr (0, [], ds)"
| "index_draws limit (Suc n) ds =
     (case randInt limit ds of
        Inl f \<Rightarrow> Inl f
      | Inr (r, errno, ds') \<Rightarrow>
          if errno \<noteq> 0 then Inr (errno, [], ds')
          else (case index_draws limit n ds' of
                  Inl f \<Rightarrow> Inl f
                | Inr (e, rs, ds'') \<Rightarrow> Inr (e, r # rs, ds'')))"

section \<open>The rejection step as the specification words it\<close>

text \<open>
  Steps 1 to 5 of the specified algorithm, over unbounded naturals and over the
  sequence of full-width values that the entropy source delivers: \<open>WORD_MAX\<close> is the
  largest word, the threshold is \<open>floor(WORD_MAX / limit) * limit\<close>, a value above the
  threshold is discarded and the next one drawn, any other value \<open>buf\<close> gives
  \<open>buf mod limit\<close>. \<open>None\<close>: every value was discarded, the algorithm is still drawing.
\<close>

definition WORD_MAX :: nat where
  "WORD_MAX = 2 ^ 64 - 1"

definition spec_threshold :: "nat \<Rightarrow> nat" where
  "spec_threshold limit = WORD_MAX div limit * limit"

fun spec_randInt :: "nat \<Rightarrow> nat list \<Rightarrow> (nat \<times> nat list) option" where
  "spec_randInt limit [] = None"
| "spec_randInt limit (buf # bufs) =
     (if buf > spec_threshold limit then spec_randInt limit bufs
      else Some (buf mod limit, bufs))"

section \<open>Command line options\<close>

datatype Option =
    OPTION_LOWER_ENABLE
  | OPTION_LOWER_DISABLE
  | OPTION_UPPER_ENABLE
  | OPTION_UPPER_DISABLE
  | OPTION_NUMBER_ENABLE
  | OPTION_NUMBER_DISABLE
  | OPTION_SYMBOL_ENABLE
  | OPTION_SYMBOL_DISABLE
  | OPTION_HELP
  | OPTION_UNRECOGNIZED

definition NUL :: char where
  "NUL = CHR 0x00"

definition TAB :: char where
  "TAB = CHR 0x09"

definition NL :: char where
  "NL = CHR 0x0A"

text \<open>
  \<^verbatim>\<open>arg[i]\<close> of a NUL-terminated C string held as the list of its characters before
  the terminator: position \<open>length arg\<close> is the terminator. \<^verbatim>\<open>parseOption\<close> never
  reads beyond it, since it reads \<^verbatim>\<open>arg[i + 1]\<close> only after a match of \<^verbatim>\<open>arg[i]\<close>
  with a character other than NUL.
\<close>

definition at :: "string \<Rightarrow> nat \<Rightarrow> char" where
  "at arg i = (if i < length arg then arg ! i else NUL)"

definition parseLongOption :: "string \<Rightarrow> Option" where
  "parseLongOption arg =
     (if arg = ''--help'' then OPTION_HELP
      else if arg = ''--enable-lower'' then OPTION_LOWER_ENABLE
      else if arg = ''--enable-upper'' then OPTION_UPPER_ENABLE
      else if arg = ''--enable-number'' then OPTION_NUMBER_ENABLE
      else if arg = ''--enable-symbol'' then OPTION_SYMBOL_ENABLE
      else if arg = ''--disable-lower'' then OPTION_LOWER_DISABLE
      else if arg = ''--disable-upper'' then OPTION_UPPER_DISABLE
      else if arg = ''--disable-number'' then OPTION_NUMBER_DISABLE
      else if arg = ''--disable-symbol'' then OPTION_SYMBOL_DISABLE
      else OPTION_UNRECOGNIZED)"

text \<open>
  The nested \<^verbatim>\<open>switch\<close>: a \<^verbatim>\<open>case\<close> whose \<^verbatim>\<open>if (!arg[2])\<close> fails leaves both
  switches through its \<^verbatim>\<open>break\<close> and ends in \<^verbatim>\<open>OPTION_UNRECOGNIZED\<close>.
\<close>

definition parseOption :: "string \<Rightarrow> Option" where
  "parseOption arg =
     (if at arg 0 = CHR ''+'' then
        (if at arg 1 = CHR ''l'' then
           (if at arg 2 = NUL then OPTION_LOWER_ENABLE else OPTION_UNRECOGNIZED)
         else if at arg 1 = CHR ''u'' then
           (if at arg 2 = NUL then OPTION_UPPER_ENABLE else OPTION_UNRECOGNIZED)
         else if at arg 1 = CHR ''n'' then
           (if at arg 2 = NUL then OPTION_NUMBER_ENABLE else OPTION_UNRECOGNIZED)
         else if at arg 1 = CHR ''s'' then
           (if at arg 2 = NUL then OPTION_SYMBOL_ENABLE else OPTION_UNRECOGNIZED)
         else OPTION_UNRECOGNIZED)
      else if at arg 0 = CHR ''-'' then
        (if at arg 1 = CHR ''-'' then parseLongOption arg
         else if at arg 1 = CHR ''l'' then
           (if at arg 2 = NUL then OPTION_LOWER_DISABLE else OPTION_UNRECOGNIZED)
         else if at arg 1 = CHR ''u'' then
           (if at arg 2 = NUL then OPTION_UPPER_DISABLE else OPTION_UNRECOGNIZED)
         else if at arg 1 = CHR ''n'' then
           (if at arg 2 = NUL then OPTION_NUMBER_DISABLE else OPTION_UNRECOGNIZED)
         else if at arg 1 = CHR ''s'' then
           (if at arg 2 = NUL then OPTION_SYMBOL_DISABLE else OPTION_UNRECOGNIZED)
         else OPTION_UNRECOGNIZED)
      else OPTION_UNRECOGNIZED)"

section \<open>The C library as main uses it\<close>

text \<open>
  \<^verbatim>\<open>strtol(nptr, NULL, 10)\<close> after ISO C 7.22.1.4, with the 64-bit \<^verbatim>\<open>long\<close> of LP64:
  white space is skipped, one sign is accepted, the longest run of decimal digits is
  converted. The result is the value returned and the value stored into \<^verbatim>\<open>errno\<close>, if
  one is stored: a value out of range is clamped and stores \<^verbatim>\<open>ERANGE\<close>; when there is
  no digit to convert, 0 is returned and \<^verbatim>\<open>errno\<close> is left as it was. That is
  what ISO C describes and what the GNU C library does (POSIX lets an implementation
  store \<^verbatim>\<open>EINVAL\<close> in that case, and some do).
\<close>

definition ERANGE :: int where
  "ERANGE = 34"

definition LONG_MAX :: int where
  "LONG_MAX = 2 ^ 63 - 1"

definition LONG_MIN :: int where
  "LONG_MIN = - (2 ^ 63)"

definition isspace :: "char \<Rightarrow> bool" where
  "isspace c = (c = CHR '' '' \<or> c = TAB \<or> c = NL \<or> c = CHR 0x0B \<or> c = CHR 0x0C \<or> c = CHR 0x0D)"

definition isdigit :: "char \<Rightarrow> bool" where
  "isdigit c = (48 \<le> (of_char c :: nat) \<and> (of_char c :: nat) \<le> 57)"

definition digits_value :: "string \<Rightarrow> int" where
  "digits_value cs = foldl (\<lambda>acc c. 10 * acc + (int (of_char c) - 48)) 0 cs"

definition strtol :: "string \<Rightarrow> int \<times> int option" where
  "strtol nptr =
     (let s = dropWhile isspace nptr;
          negative = (at s 0 = CHR ''-'');
          s' = (if at s 0 = CHR ''-'' \<or> at s 0 = CHR ''+'' then tl s else s);
          digits = takeWhile isdigit s';
          v = (if negative then - digits_value digits else digits_value digits)
      in if digits = [] then (0, None)
         else if v > LONG_MAX then (LONG_MAX, Some ERANGE)
         else if v < LONG_MIN then (LONG_MIN, Some ERANGE)
         else (v, None))"

text \<open>
  \<^verbatim>\<open>strcpy(dst, src)\<close> into the memory that starts at a block's first byte, \<open>dst\<close> being
  the offset of the destination in it (not beyond the bytes held): the characters of
  \<open>src\<close> and the terminator are written from \<open>dst\<close> on, also where that is past the
  bytes held so far, which then become part of what is known of the memory.
\<close>

definition strcpy :: "string \<Rightarrow> nat \<Rightarrow> string \<Rightarrow> string" where
  "strcpy mem dst src = take dst mem @ src @ [NUL] @ drop (dst + length src + 1) mem"

text \<open>
  \<^verbatim>\<open>calloc(n, 1)\<close> when the allocator has \<open>heap\<close> bytes left to hand out: whether a
  block is returned (otherwise the result is the null pointer). A request above
  \<^verbatim>\<open>PTRDIFF_MAX\<close> is never granted. How much is left is the environment's matter, as
  the entropy is.
\<close>

definition PTRDIFF_MAX :: nat where
  "PTRDIFF_MAX = 2 ^ 63 - 1"

definition calloc :: "nat \<Rightarrow> nat \<Rightarrow> bool" where
  "calloc heap n = (n \<le> heap \<and> n \<le> PTRDIFF_MAX)"

text \<open>\<^verbatim>\<open>puts(s)\<close>: the characters before the first NUL, and a newline.\<close>

definition puts :: "string \<Rightarrow> string" where
  "puts s = takeWhile (\<lambda>c. c \<noteq> NUL) s @ [NL]"

text \<open>
  The standard error stream is the list of the calls that wrote to it.
  \<^verbatim>\<open>perror(s)\<close> is recorded with the value of \<^verbatim>\<open>errno\<close> whose message it prints.
\<close>

datatype written = Fputs string | Putc char | Perror string int

section \<open>main: handling the arguments\<close>

definition HELP_TEXT :: string where
  "HELP_TEXT = concat (map (\<lambda>line. line @ [NL])
     [''NAME'',
      TAB # ''passgen - password generator'',
      [],
      ''SYNOPSIS'',
      TAB # ''passgen [OPTION...] [LENGTH]'',
      [],
      ''DESCRIPTION'',
      TAB # ''Generate cryptographically secure passwords of LENGTH characters,'',
      TAB # ''default length is 22.'',
      [],
      ''OPTIONS'',
      TAB # ''+l, --enable-lower'',
      TAB # TAB # ''enables lowercase letters to be generated, default'',
      TAB # ''-l, --disable-lower'',
      TAB # TAB # ''disables lowercase letters'',
      TAB # ''+u, --enable-upper'',
      TAB # TAB # ''enables uppercase letters to be generated, default'',
      TAB # ''-u, --disable-upper'',
      TAB # TAB # ''disables uppercase letters'',
      TAB # ''+n, --enable-number'',
      TAB # TAB # ''enables numbers to be generated, default'',
      TAB # ''-n, --disable-number'',
      TAB # TAB # ''disables numbers'',
      TAB # ''+s, --enable-symbol'',
      TAB # TAB # ''enables symbols to be generated'',
      TAB # ''-s, --disable-symbol'',
      TAB # TAB # ''disables symbols, default'',
      TAB # ''--help'',
      TAB # TAB # ''prints this message''])"

definition printHelp :: "written list \<Rightarrow> written list" where
  "printHelp stderr = stderr @ [Fputs HELP_TEXT]"

definition PASS_LEN_DEFAULT :: size_t where
  "PASS_LEN_DEFAULT = 22"

text \<open>The local variables of \<^verbatim>\<open>main\<close> that the argument loop sets.\<close>

record settings =
  enableLower :: bool
  enableUpper :: bool
  enableNumber :: bool
  enableSymbol :: bool
  passLen :: size_t

definition defaults :: settings where
  "defaults = \<lparr>enableLower = True, enableUpper = True, enableNumber = True,
               enableSymbol = False, passLen = PASS_LEN_DEFAULT\<rparr>"

text \<open>The three writes at the label \<^verbatim>\<open>badOpt\<close>.\<close>

definition badOpt :: "string \<Rightarrow> written list \<Rightarrow> written list" where
  "badOpt option stderr = stderr @ [Fputs ''Unrecognized option: '', Fputs option, Putc NL]"

text \<open>
  How the argument loop ends: \<open>Exit\<close> through \<^verbatim>\<open>goto exit\<close> after the help text, or
  \<open>Go\<close> on to building the password. Both carry what was written to standard error.
\<close>

datatype parsed = Exit "written list" | Go settings "written list"

text \<open>
  The loop \<^verbatim>\<open>for (size_t i = 1; i < argc; ++i)\<close> over the arguments not yet handled:
  \<open>option # rest\<close> is \<^verbatim>\<open>argv[i]\<close> and what follows it, so \<^verbatim>\<open>i == argc-1\<close> is
  \<open>rest = []\<close>. The assignment \<^verbatim>\<open>passLen = strtol(...)\<close> converts the \<^verbatim>\<open>long\<close> to
  \<^verbatim>\<open>size_t\<close>.
\<close>

fun handle_flags :: "settings \<Rightarrow> written list \<Rightarrow> string list \<Rightarrow> parsed" where
  "handle_flags st stderr [] = Go st stderr"
| "handle_flags st stderr (option # rest) =
     (case parseOption option of
        OPTION_LOWER_ENABLE \<Rightarrow> handle_flags (st\<lparr>enableLower := True\<rparr>) stderr rest
      | OPTION_LOWER_DISABLE \<Rightarrow> handle_flags (st\<lparr>enableLower := False\<rparr>) stderr rest
      | OPTION_UPPER_ENABLE \<Rightarrow> handle_flags (st\<lparr>enableUpper := True\<rparr>) stderr rest
      | OPTION_UPPER_DISABLE \<Rightarrow> handle_flags (st\<lparr>enableUpper := False\<rparr>) stderr rest
      | OPTION_NUMBER_ENABLE \<Rightarrow> handle_flags (st\<lparr>enableNumber := True\<rparr>) stderr rest
      | OPTION_NUMBER_DISABLE \<Rightarrow> handle_flags (st\<lparr>enableNumber := False\<rparr>) stderr rest
      | OPTION_SYMBOL_ENABLE \<Rightarrow> handle_flags (st\<lparr>enableSymbol := True\<rparr>) stderr rest
      | OPTION_SYMBOL_DISABLE \<Rightarrow> handle_flags (st\<lparr>enableSymbol := False\<rparr>) stderr rest
      | OPTION_HELP \<Rightarrow> Exit (printHelp stderr)
      | OPTION_UNRECOGNIZED \<Rightarrow>
          if rest = [] then
            (let (v, stored) = strtol option;
                 errno = (case stored of None \<Rightarrow> 0 | Some e \<Rightarrow> e)
             in if errno \<noteq> 0
                then handle_flags (st\<lparr>passLen := PASS_LEN_DEFAULT\<rparr>) (badOpt option stderr) rest
                else handle_flags (st\<lparr>passLen := word_of_int v\<rparr>) stderr rest)
          else handle_flags st (badOpt option stderr) rest)"

section \<open>main: building the password\<close>

definition LOWERS :: string where
  "LOWERS = ''abcdefghijklmnopqrstuvwxyz''"

definition LOWERS_LEN :: size_t where
  "LOWERS_LEN = 26"

definition UPPERS :: string where
  "UPPERS = ''ABCDEFGHIJKLMNOPQRSTUVWXYZ''"

definition UPPERS_LEN :: size_t where
  "UPPERS_LEN = 26"

definition NUMBERS :: string where
  "NUMBERS = ''0123456789''"

definition NUMBERS_LEN :: size_t where
  "NUMBERS_LEN = 10"

text \<open>The double quote, the quote and the backslash are written by their codes.\<close>

definition SYMBOLS :: string where
  "SYMBOLS = ''!'' @ [CHR 0x22] @ ''#$%&'' @ [CHR 0x27] @ ''()*+,-./:;<=>?@[''
               @ [CHR 0x5C] @ '']^_`{|}~''"

definition SYMBOLS_LEN :: size_t where
  "SYMBOLS_LEN = 32"

text \<open>
  Lines 197 to 210, \<^verbatim>\<open>prep password chars\<close>: the length \<^verbatim>\<open>passCharsLen\<close>, then the
  block that \<^verbatim>\<open>calloc\<close> returns, when it returns one (\<open>assemble\<close> below sees to the null
  pointer), and the four conditional copies, with \<^verbatim>\<open>start\<close> as an offset into the block. The result is \<^verbatim>\<open>passCharsLen\<close> and the memory
  at \<^verbatim>\<open>passChars\<close>: its first \<^verbatim>\<open>passCharsLen\<close> bytes are the block, and a byte beyond
  them is there when the terminator of the last copy was written past the block's end.
\<close>

definition prep_passChars :: "settings \<Rightarrow> size_t \<times> string" where
  "prep_passChars st =
     (let n0 = 0;
          n1 = (if enableLower st then n0 + LOWERS_LEN else n0);
          n2 = (if enableUpper st then n1 + UPPERS_LEN else n1);
          n3 = (if enableNumber st then n2 + NUMBERS_LEN else n2);
          passCharsLen = (if enableSymbol st then n3 + SYMBOLS_LEN else n3);
          m0 = replicate (unat passCharsLen) NUL;
          s0 = 0;
          (m1, s1) = (if enableLower st then (strcpy m0 s0 LOWERS, s0 + unat LOWERS_LEN)
                      else (m0, s0));
          (m2, s2) = (if enableUpper st then (strcpy m1 s1 UPPERS, s1 + unat UPPERS_LEN)
                      else (m1, s1));
          (m3, s3) = (if enableNumber st then (strcpy m2 s2 NUMBERS, s2 + unat NUMBERS_LEN)
                      else (m2, s2));
          (m4, s4) = (if enableSymbol st then (strcpy m3 s3 SYMBOLS, s3 + unat SYMBOLS_LEN)
                      else (m3, s3))
      in (passCharsLen, m4))"

text \<open>The block at \<^verbatim>\<open>passChars\<close>: the \<^verbatim>\<open>passCharsLen\<close> bytes that were allocated.\<close>

definition passChars_block :: "settings \<Rightarrow> string" where
  "passChars_block st = (let (passCharsLen, mem) = prep_passChars st in take (unat passCharsLen) mem)"

text \<open>
  The loop of lines 216 to 225 leaves either at its end or through \<^verbatim>\<open>goto cleanup\<close>,
  after \<^verbatim>\<open>perror\<close>, with the \<^verbatim>\<open>errno\<close> that \<^verbatim>\<open>randInt\<close> left.
\<close>

datatype loop_exit = Completed | Aborted int

text \<open>
  \<^verbatim>\<open>for (size_t i = 0; i < passLen; ++i)\<close>, from the current \<open>i\<close>, with the bound
  \<open>passLen'\<close> as a natural number: \<open>mem\<close> is the memory at \<^verbatim>\<open>passChars\<close>, whose block has
  \<^verbatim>\<open>passCharsLen\<close> bytes. The read
  \<^verbatim>\<open>passChars[r]\<close> and the write \<^verbatim>\<open>password[i]\<close> are checked against their blocks.
\<close>

function select :: "string \<Rightarrow> size_t \<Rightarrow> nat \<Rightarrow> nat \<Rightarrow> string \<Rightarrow> draw list
    \<Rightarrow> fault + (loop_exit \<times> string \<times> draw list)" where
  "select mem passCharsLen passLen' i password ds =
     (if i < passLen' then
        (case randInt passCharsLen ds of
           Inl f \<Rightarrow> Inl f
         | Inr (r, errno, ds') \<Rightarrow>
             if errno \<noteq> 0 then Inr (Aborted errno, password, ds')
             else if r < passCharsLen \<and> i < length password
             then select mem passCharsLen passLen' (Suc i) (password[i := mem ! unat r]) ds'
             else Inl OutOfBounds)
      else Inr (Completed, password, ds))"
  by pat_completeness auto
termination
  by (relation "measure (\<lambda>(mem, passCharsLen, passLen', i, password, ds). passLen' - i)") auto

declare select.simps [simp del]

text \<open>What a run that returns from \<^verbatim>\<open>main\<close> leaves behind.\<close>

record outcome =
  status :: int
  out :: string
  err :: "written list"
  overrun :: bool

text \<open>
  Lines 197 to 225: the characters to choose from, the block for the password and the
  selection loop. When the first \<^verbatim>\<open>calloc\<close> returns the null pointer, \<^verbatim>\<open>passCharsLen\<close>
  is not 0, so a class is enabled and its \<^verbatim>\<open>strcpy\<close> writes through the null pointer.
  \<^verbatim>\<open>password\<close> is asked for with \<^verbatim>\<open>passLen+1\<close> bytes, computed in \<^verbatim>\<open>size_t\<close>, from what
  the first block left; when that \<^verbatim>\<open>calloc\<close> returns the null pointer, line 213 writes
  through it. The write \<^verbatim>\<open>password[passLen] = 0\<close> is outside the block when
  \<^verbatim>\<open>passLen+1\<close> wrapped to 0.
\<close>

definition assemble :: "settings \<Rightarrow> nat \<Rightarrow> draw list
    \<Rightarrow> fault + (loop_exit \<times> string \<times> draw list)" where
  "assemble st heap ds =
     (let (passCharsLen, mem) = prep_passChars st
      in if \<not> calloc heap (unat passCharsLen) then Inl NullDereference
         else if \<not> calloc (heap - unat passCharsLen) (unat (passLen st + 1))
         then Inl NullDereference
         else (let password = replicate (unat (passLen st + 1)) NUL
               in if unat (passLen st) < length password
                  then select mem passCharsLen (unat (passLen st)) 0
                         (password[unat (passLen st) := NUL]) ds
                  else Inl OutOfBounds))"

text \<open>
  Lines 194 to 234, from \<^verbatim>\<open>BUILD PASSWORD\<close> to \<^verbatim>\<open>return 0\<close>: after the loop either
  \<^verbatim>\<open>puts(password)\<close>, or \<^verbatim>\<open>perror\<close> and the jump over it. \<open>overrun\<close> records that a
  copy into \<^verbatim>\<open>passChars\<close> wrote past the block. The \<^verbatim>\<open>memset\<close> and the two \<^verbatim>\<open>free\<close>
  calls at \<^verbatim>\<open>cleanup\<close> change nothing that is observed afterwards.
\<close>

definition build_password :: "settings \<Rightarrow> written list \<Rightarrow> nat \<Rightarrow> draw list
    \<Rightarrow> fault + outcome" where
  "build_password st stderr heap ds =
     (let (passCharsLen, mem) = prep_passChars st
      in case assemble st heap ds of
           Inl f \<Rightarrow> Inl f
         | Inr (Aborted errno, password, ds') \<Rightarrow>
             Inr \<lparr>status = 0, out = [],
                  err = stderr @ [Perror ''Failed to get random'' errno],
                  overrun = (unat passCharsLen < length mem)\<rparr>
         | Inr (Completed, password, ds') \<Rightarrow>
             Inr \<lparr>status = 0, out = puts password, err = stderr,
                  overrun = (unat passCharsLen < length mem)\<rparr>)"

text \<open>
  \<^verbatim>\<open>main(argc, argv)\<close> with \<open>argc = length argv\<close>, given what the allocator has left
  and the entropy source's outcomes.
\<close>

definition main :: "string list \<Rightarrow> nat \<Rightarrow> draw list \<Rightarrow> fault + outcome" where
  "main argv heap ds =
     (case handle_flags defaults [] (drop 1 argv) of
        Exit stderr \<Rightarrow> Inr \<lparr>status = 0, out = [], err = stderr, overrun = False\<rparr>
      | Go st stderr \<Rightarrow> build_password st stderr heap ds)"

section \<open>Properties of randInt\<close>

subsection \<open>Unfolding one outcome\<close>

lemma randInt_Nil: "randInt limit [] = Inl Blocked"
  by (simp add: randInt.simps [of limit "[]"])

lemma getrandom_loop_retry:
  "ret d \<noteq> 8 \<Longrightarrow> set_errno d = None \<or> set_errno d = Some 0 \<Longrightarrow>
   getrandom_loop 0 (d # ds) = getrandom_loop 0 ds"
  by (auto simp: Let_def)

lemma getrandom_loop_error:
  "set_errno d = Some e \<Longrightarrow> e \<noteq> 0 \<Longrightarrow> getrandom_loop 0 (d # ds) = Inr (bytes d, e, ds)"
  by (simp add: Let_def)

text \<open>A short read is passed over.\<close>

lemma randInt_skip:
  assumes "ret d \<noteq> 8" and "set_errno d = None"
  shows "randInt limit (d # ds) = randInt limit ds"
proof -
  from assms have "getrandom_loop 0 (d # ds) = getrandom_loop 0 ds"
    by (simp add: getrandom_loop_retry)
  then show ?thesis
    by (simp add: randInt.simps [of limit "d # ds"] randInt.simps [of limit ds])
qed

text \<open>A full read is tested against the threshold.\<close>

lemma randInt_word:
  assumes "ret d = 8" and "set_errno d = None"
  shows "randInt limit (d # ds) =
     (if limit = 0 then Inl DivisionByZero
      else if bytes d > MAX_size div limit * limit then randInt limit ds
      else Inr (bytes d mod limit, 0, ds))"
  using assms by (subst randInt.simps) simp

lemma randInt_full:
  "randInt limit (full b # ds) =
     (if limit = 0 then Inl DivisionByZero
      else if b > MAX_size div limit * limit then randInt limit ds
      else Inr (b mod limit, 0, ds))"
  using randInt_word [of "full b" limit ds] by (simp add: full_def)

text \<open>A call that sets \<^verbatim>\<open>errno\<close> ends \<^verbatim>\<open>randInt\<close>.\<close>

lemma randInt_error:
  assumes "set_errno d = Some e" and "e \<noteq> 0"
  shows "randInt limit (d # ds) = Inr (0, e, ds)"
proof -
  from assms have "getrandom_loop 0 (d # ds) = Inr (bytes d, e, ds)"
    by (rule getrandom_loop_error)
  with assms(2) show ?thesis
    by (simp add: randInt.simps [of limit "d # ds"])
qed

subsection \<open>What randInt returns\<close>

text \<open>The value returned is below a nonzero \<open>limit\<close>, on the error path too.\<close>

lemma randInt_bound:
  "limit \<noteq> 0 \<Longrightarrow> randInt limit ds = Inr (r, e, ds') \<Longrightarrow> r < limit"
proof (induction limit ds rule: randInt.induct)
  case (1 limit ds)
  from "1.prems" have pos: "0 < limit"
    by (simp add: word_greater_zero_iff)
  show ?case
  proof (cases "getrandom_loop 0 ds")
    case (Inl f)
    with "1.prems" show ?thesis
      by (simp add: randInt.simps [of limit ds])
  next
    case (Inr t)
    obtain buf errno rest where t: "t = (buf, errno, rest)"
      by (cases t) auto
    show ?thesis
    proof (cases "errno \<noteq> 0")
      case True
      with "1.prems" Inr t pos show ?thesis
        by (simp add: randInt.simps [of limit ds])
    next
      case False
      note e0 = this
      show ?thesis
      proof (cases "buf > MAX_size div limit * limit")
        case True
        with "1.prems" Inr t e0 have "randInt limit rest = Inr (r, e, ds')"
          by (simp add: randInt.simps [of limit ds])
        with "1.IH" [OF Inr t [symmetric] refl] e0 "1.prems"(1) True show ?thesis
          by simp
      next
        case False
        with "1.prems" Inr t e0 have "r = buf mod limit"
          by (simp add: randInt.simps [of limit ds])
        with pos show ?thesis
          by (simp add: word_mod_less_divisor)
      qed
    qed
  qed
qed

lemma getrandom_loop_fault: "getrandom_loop e ds = Inl f \<Longrightarrow> f = Blocked"
  by (induction ds arbitrary: e) (auto simp: Let_def split: if_splits)

text \<open>\<^verbatim>\<open>randInt\<close> itself touches no block of memory.\<close>

lemma randInt_fault: "randInt limit ds = Inl f \<Longrightarrow> f \<noteq> OutOfBounds"
proof (induction limit ds rule: randInt.induct)
  case (1 limit ds)
  show ?case
  proof (cases "getrandom_loop 0 ds")
    case (Inl g)
    with "1.prems" have "f = g"
      by (simp add: randInt.simps [of limit ds])
    with Inl show ?thesis
      by (auto dest: getrandom_loop_fault)
  next
    case (Inr t)
    obtain buf errno ds' where t: "t = (buf, errno, ds')"
      by (cases t) auto
    from "1.prems" Inr t have e: "errno = 0"
      by (auto simp: randInt.simps [of limit ds] split: if_splits)
    show ?thesis
    proof (cases "limit = 0")
      case True
      with "1.prems" Inr t e show ?thesis
        by (simp add: randInt.simps [of 0 ds])
    next
      case False
      with "1.prems" Inr t e have gt: "MAX_size div limit * limit < buf"
        and rec: "randInt limit ds' = Inl f"
        by (auto simp: randInt.simps [of limit ds] split: if_splits)
      from "1.IH" [OF Inr t [symmetric] refl _ False gt rec] e show ?thesis
        by simp
    qed
  qed
qed

text \<open>With \<open>limit = 0\<close> the only return is the one of the error path.\<close>

lemma randInt_zero_result: "randInt 0 ds = Inr (r, e, ds') \<Longrightarrow> e \<noteq> 0"
  by (subst (asm) randInt.simps) (auto split: sum.splits prod.splits if_splits)

text \<open>Whenever \<^verbatim>\<open>errno\<close> is set on return, the value returned is 0.\<close>

lemma randInt_error_value:
  "randInt limit ds = Inr (r, e, ds') \<Longrightarrow> e \<noteq> 0 \<Longrightarrow> r = 0"
proof (induction limit ds rule: randInt.induct)
  case (1 limit ds)
  show ?case
  proof (cases "getrandom_loop 0 ds")
    case (Inl f)
    with "1.prems" show ?thesis
      by (simp add: randInt.simps [of limit ds])
  next
    case (Inr t)
    obtain buf errno rest where t: "t = (buf, errno, rest)"
      by (cases t) auto
    show ?thesis
    proof (cases "errno \<noteq> 0")
      case True
      with "1.prems" Inr t show ?thesis
        by (simp add: randInt.simps [of limit ds])
    next
      case False
      note e0 = this
      show ?thesis
      proof (cases "limit = 0")
        case True
        with "1.prems" Inr t e0 show ?thesis
          by (simp add: randInt.simps [of 0 ds])
      next
        case False
        note nz = this
        show ?thesis
        proof (cases "buf > MAX_size div limit * limit")
          case True
          with "1.prems" Inr t e0 nz have "randInt limit rest = Inr (r, e, ds')"
            by (simp add: randInt.simps [of limit ds])
          with "1.IH" [OF Inr t [symmetric] refl _ nz True] e0 "1.prems"(2) show ?thesis
            by simp
        next
          case False
          with "1.prems" Inr t e0 nz show ?thesis
            by (simp add: randInt.simps [of limit ds])
        qed
      qed
    qed
  qed
qed

text \<open>
  A stream on which no call reports an error and one call delivers a word that is not
  above the threshold makes \<^verbatim>\<open>randInt\<close> return, without error and in range.
\<close>

lemma randInt_returns:
  assumes "limit \<noteq> 0"
    and "\<forall>p \<in> set pre. set_errno p = None"
    and "ret d = 8" and "set_errno d = None"
    and "bytes d \<le> MAX_size div limit * limit"
  shows "\<exists>r rest. randInt limit (pre @ d # post) = Inr (r, 0, rest) \<and> r < limit"
  using assms(2)
proof (induction pre)
  case Nil
  from assms(1) have "bytes d mod limit < limit"
    by (simp add: word_mod_less_divisor word_greater_zero_iff)
  with assms show ?case
    by (simp add: randInt_word not_less [symmetric])
next
  case (Cons p pre)
  then have ih: "\<exists>r rest. randInt limit (pre @ d # post) = Inr (r, 0, rest) \<and> r < limit"
    and np: "set_errno p = None"
    by simp_all
  show ?case
  proof (cases "ret p = 8")
    case False
    with np ih show ?thesis
      by (simp add: randInt_skip)
  next
    case True
    from assms(1) have "bytes p mod limit < limit"
      by (simp add: word_mod_less_divisor word_greater_zero_iff)
    with True np ih assms(1) show ?thesis
      by (simp add: randInt_word)
  qed
qed

text \<open>
  A call that sets \<^verbatim>\<open>errno\<close>, after any number of short reads and of words above the
  threshold, makes \<^verbatim>\<open>randInt\<close> return 0 with that \<^verbatim>\<open>errno\<close>.
\<close>

lemma randInt_fails:
  assumes "limit \<noteq> 0"
    and "\<forall>p \<in> set pre. set_errno p = None
           \<and> (ret p \<noteq> 8 \<or> bytes p > MAX_size div limit * limit)"
    and "set_errno d = Some e" and "e \<noteq> 0"
  shows "randInt limit (pre @ d # post) = Inr (0, e, post)"
  using assms(2)
proof (induction pre)
  case Nil
  from assms(3,4) show ?case
    by (simp add: randInt_error)
next
  case (Cons p pre)
  then have ih: "randInt limit (pre @ d # post) = Inr (0, e, post)"
    and np: "set_errno p = None"
    and rej: "ret p \<noteq> 8 \<or> bytes p > MAX_size div limit * limit"
    by simp_all
  show ?case
  proof (cases "ret p = 8")
    case False
    with np ih show ?thesis
      by (simp add: randInt_skip)
  next
    case True
    with rej have "bytes p > MAX_size div limit * limit"
      by simp
    with True np ih assms(1) show ?thesis
      by (simp add: randInt_word)
  qed
qed

text \<open>
  C2. For every \<open>limit > 0\<close>, every value that \<^verbatim>\<open>randInt\<close> returns lies in
  \<open>[0, limit)\<close>, whatever the entropy source delivered. And on a successful sequence
  of draws it does return such a value: when no call reports an error and one of them
  delivers a full word that is not above the threshold, \<^verbatim>\<open>randInt\<close> returns without
  error a value in \<open>[0, limit)\<close>.
\<close>

theorem randInt_in_range:
  "(limit \<noteq> 0 \<and> randInt limit ds = Inr (r, e, ds') \<longrightarrow> r < limit)
   \<and> (limit \<noteq> 0 \<and> (\<forall>p \<in> set pre. set_errno p = None)
        \<and> ret d = 8 \<and> set_errno d = None \<and> bytes d \<le> MAX_size div limit * limit
      \<longrightarrow> (\<exists>r' rest. randInt limit (pre @ d # post) = Inr (r', 0, rest) \<and> r' < limit))"
  using randInt_bound [of limit ds r e ds'] randInt_returns [of limit pre d post]
  by blast

theorem randInt_in_range_witness:
  "(7 :: size_t) \<noteq> 0
   \<and> randInt 7 [short 3 0, full 18446744073709551615, full 12] = Inr (5, 0, [])
   \<and> (5 :: size_t) < 7
   \<and> set_errno (short 3 0) = None \<and> set_errno (full 18446744073709551615) = None
   \<and> ret (full 12) = 8 \<and> set_errno (full 12) = None
   \<and> bytes (full 12) \<le> MAX_size div 7 * 7
   \<and> (\<exists>r' rest. randInt 7 ([short 3 0, full 18446744073709551615] @ full 12 # [full 1])
          = Inr (r', 0, rest) \<and> r' < 7)"
proof -
  have run: "randInt 7 [short 3 0, full 18446744073709551615, full 12] = Inr (5, 0, [])"
    by (simp add: randInt.simps full_def short_def MAX_size_def)
  have nz: "(7 :: size_t) \<noteq> 0"
    by simp
  have pre: "\<forall>p \<in> set [short 3 0, full 18446744073709551615]. set_errno p = None"
    by (simp add: short_def full_def)
  have d: "ret (full 12) = 8 \<and> set_errno (full 12) = None
           \<and> bytes (full 12) \<le> MAX_size div 7 * 7"
    by (simp add: full_def MAX_size_def)
  note th = randInt_in_range [of 7 "[short 3 0, full 18446744073709551615, full 12]" 5 0 "[]"
      "[short 3 0, full 18446744073709551615]" "full 12" "[full 1]"]
  from th nz run have "(5 :: size_t) < 7"
    by blast
  moreover from th nz pre d
  have "\<exists>r' rest. randInt 7 ([short 3 0, full 18446744073709551615] @ full 12 # [full 1])
          = Inr (r', 0, rest) \<and> r' < 7"
    by blast
  moreover have "set_errno (short 3 0) = None \<and> set_errno (full 18446744073709551615) = None"
    by (simp add: short_def full_def)
  ultimately show ?thesis
    using nz run d by blast
qed

text \<open>
  C4. With \<open>limit = 0\<close> nothing stands between a delivered word and the division
  \<^verbatim>\<open>MAX / limit\<close>: whenever the entropy loop hands over a word without error,
  \<^verbatim>\<open>randInt(0)\<close> ends in the division by zero.
\<close>

theorem randInt_zero_divides:
  "getrandom_loop 0 ds = Inr (buf, 0, ds') \<Longrightarrow> randInt 0 ds = Inl DivisionByZero"
  by (simp add: randInt.simps [of 0 ds])

theorem randInt_zero_divides_witness:
  "getrandom_loop 0 [short 2 0, full 9] = Inr (9, 0, [])
   \<and> randInt 0 [short 2 0, full 9] = Inl DivisionByZero"
proof -
  have h: "getrandom_loop 0 [short 2 0, full 9] = Inr (9, 0, [])"
    by (simp add: short_def full_def)
  from randInt_zero_divides [OF h] h show ?thesis
    by simp
qed

text \<open>
  C10. On every return of \<^verbatim>\<open>randInt\<close> that leaves \<^verbatim>\<open>errno\<close> set the value returned is
  0, also when words were discarded before the failing call, and the failure shows in
  \<^verbatim>\<open>errno\<close> only. A failing call does lead to that return: after any number of short
  reads and discarded words, a call that sets \<^verbatim>\<open>errno\<close> to \<open>e\<close> makes \<^verbatim>\<open>randInt\<close> return
  0 with \<^verbatim>\<open>errno = e\<close>. For \<open>limit > 0\<close> the value 0 is in range and is also what a
  successful draw of the word 0 returns, so the value does not tell the two apart.
\<close>

theorem randInt_failure_returns_zero:
  "(randInt limit ds = Inr (r, e, ds') \<and> e \<noteq> 0 \<longrightarrow> r = 0)
   \<and> (limit \<noteq> 0
        \<and> (\<forall>p \<in> set pre. set_errno p = None
              \<and> (ret p \<noteq> 8 \<or> bytes p > MAX_size div limit * limit))
        \<and> set_errno d = Some e' \<and> e' \<noteq> 0
      \<longrightarrow> randInt limit (pre @ d # post) = Inr (0, e', post))
   \<and> (limit \<noteq> 0 \<longrightarrow> 0 < limit \<and> randInt limit [full 0] = Inr (0, 0, []))"
proof (intro conjI impI)
  assume "randInt limit ds = Inr (r, e, ds') \<and> e \<noteq> 0"
  then show "r = 0"
    using randInt_error_value [of limit ds r e ds'] by blast
next
  assume "limit \<noteq> 0
        \<and> (\<forall>p \<in> set pre. set_errno p = None
              \<and> (ret p \<noteq> 8 \<or> bytes p > MAX_size div limit * limit))
        \<and> set_errno d = Some e' \<and> e' \<noteq> 0"
  then show "randInt limit (pre @ d # post) = Inr (0, e', post)"
    using randInt_fails [of limit pre d e' post] by blast
next
  assume "limit \<noteq> 0"
  then show "0 < limit"
    by (simp add: word_greater_zero_iff)
next
  assume "limit \<noteq> 0"
  then show "randInt limit [full 0] = Inr (0, 0, [])"
    by (simp add: randInt_full)
qed

theorem randInt_failure_returns_zero_witness:
  "randInt 62 [full 18446744073709551615, short 2 0, failed EIO, full 3]
     = Inr (0, EIO, [full 3])
   \<and> EIO \<noteq> 0
   \<and> (62 :: size_t) \<noteq> 0
   \<and> set_errno (full 18446744073709551615) = None
   \<and> bytes (full 18446744073709551615) > MAX_size div 62 * 62
   \<and> set_errno (short 2 0) = None \<and> ret (short 2 0) \<noteq> 8
   \<and> set_errno (failed EIO) = Some EIO
   \<and> (0 :: size_t) < 62
   \<and> randInt 62 [full 0] = Inr (0, 0, [])"
proof -
  have nz: "(62 :: size_t) \<noteq> 0"
    by simp
  have e: "EIO \<noteq> 0"
    by (simp add: EIO_def)
  have pre: "\<forall>p \<in> set [full 18446744073709551615, short 2 0]. set_errno p = None
          \<and> (ret p \<noteq> 8 \<or> bytes p > MAX_size div 62 * 62)"
    by (simp add: full_def short_def MAX_size_def)
  have d: "set_errno (failed EIO) = Some EIO"
    by (simp add: failed_def)
  note th = randInt_failure_returns_zero [of 62
      "[full 18446744073709551615, short 2 0, failed EIO, full 3]" 0 EIO "[full 3]"
      "[full 18446744073709551615, short 2 0]" "failed EIO" EIO "[full 3]"]
  from th nz pre d e
  have run: "randInt 62 [full 18446744073709551615, short 2 0, failed EIO, full 3]
               = Inr (0, EIO, [full 3])"
    by simp
  from th nz have "(0 :: size_t) < 62 \<and> randInt 62 [full 0] = Inr (0, 0, [])"
    by blast
  moreover have "set_errno (full 18446744073709551615) = None
      \<and> bytes (full 18446744073709551615) > MAX_size div 62 * 62
      \<and> set_errno (short 2 0) = None \<and> ret (short 2 0) \<noteq> 8"
    by (simp add: full_def short_def MAX_size_def)
  ultimately show ?thesis
    using run e nz d by blast
qed




subsection \<open>Word arithmetic of the threshold\<close>

lemma unat_MAX_size: "unat MAX_size = 2 ^ 64 - 1"
  unfolding MAX_size_def by (simp add: unsigned_minus_1_eq_mask mask_eq_exp_minus_1)

text \<open>\<^verbatim>\<open>MAX / limit * limit\<close> does not wrap: it is the same number over the naturals.\<close>

lemma unat_threshold:
  "unat (MAX_size div limit * limit) = (2 ^ 64 - 1) div unat limit * unat limit"
proof -
  have "unat (MAX_size div limit) * unat limit \<le> unat MAX_size"
    by (simp add: unat_div)
  also have "\<dots> < 2 ^ 64"
    by (simp add: unat_MAX_size)
  finally have "unat (MAX_size div limit * limit) = unat (MAX_size div limit) * unat limit"
    by (simp add: unat_mult_lem [THEN iffD1])
  then show ?thesis
    by (simp add: unat_div unat_MAX_size)
qed

lemma threshold_as_spec:
  "(MAX_size div limit * limit < buf) = (spec_threshold (unat limit) < unat buf)"
  by (simp only: word_less_nat_alt unat_threshold spec_threshold_def WORD_MAX_def)

lemma residue_as_spec: "word_of_nat (unat buf mod unat limit) = buf mod limit"
  by (rule word_arith_nat_mod [symmetric])

text \<open>
  C3. For \<open>limit > 0\<close> the code is the specified algorithm. On every sequence of
  full-width words the code's run equals the run of steps 1 to 5 over the naturals: the
  same words are discarded, the same residue is returned, the same words are left. And
  on every stream of outcomes, whenever the entropy loop delivers a word, the code
  redraws exactly when the word is above the specified threshold and returns the
  specified residue otherwise.
\<close>

theorem randInt_refines_spec:
  assumes "limit \<noteq> 0"
  shows "randInt limit (map full ws) =
           (case spec_randInt (unat limit) (map unat ws) of
              None \<Rightarrow> Inl Blocked
            | Some (r, rest) \<Rightarrow> Inr (word_of_nat r, 0, map (full \<circ> word_of_nat) rest))
         \<and> (\<forall>buf ds'. getrandom_loop 0 ds = Inr (buf, 0, ds') \<longrightarrow>
               randInt limit ds =
                 (if unat buf > spec_threshold (unat limit) then randInt limit ds'
                  else Inr (word_of_nat (unat buf mod unat limit), 0, ds')))"
proof
  show "randInt limit (map full ws) =
          (case spec_randInt (unat limit) (map unat ws) of
             None \<Rightarrow> Inl Blocked
           | Some (r, rest) \<Rightarrow> Inr (word_of_nat r, 0, map (full \<circ> word_of_nat) rest))"
  proof (induction ws)
    case Nil
    show ?case
      by (simp add: randInt_Nil)
  next
    case (Cons w ws)
    have unmap: "map (full \<circ> word_of_nat) (map unat ws) = map full ws"
      by (simp add: comp_def)
    show ?case
      using assms Cons.IH
      by (simp add: randInt_full threshold_as_spec residue_as_spec unmap)
  qed
next
  show "\<forall>buf ds'. getrandom_loop 0 ds = Inr (buf, 0, ds') \<longrightarrow>
          randInt limit ds =
            (if unat buf > spec_threshold (unat limit) then randInt limit ds'
             else Inr (word_of_nat (unat buf mod unat limit), 0, ds'))"
  proof (intro allI impI)
    fix buf ds'
    assume "getrandom_loop 0 ds = Inr (buf, 0, ds')"
    with assms show "randInt limit ds =
        (if unat buf > spec_threshold (unat limit) then randInt limit ds'
         else Inr (word_of_nat (unat buf mod unat limit), 0, ds'))"
      by (subst randInt.simps) (simp add: threshold_as_spec residue_as_spec)
  qed
qed

theorem randInt_refines_spec_witness:
  "(7 :: size_t) \<noteq> 0
   \<and> spec_randInt 7 [18446744073709551615, 12] = Some (5, [])
   \<and> randInt 7 [full 18446744073709551615, full 12] = Inr (5, 0, [])
   \<and> getrandom_loop 0 [short 3 0, full 12] = Inr (12, 0, [])
   \<and> randInt 7 [short 3 0, full 12] = Inr (5, 0, [])"
proof -
  have nz: "(7 :: size_t) \<noteq> 0"
    by simp
  have sp: "spec_randInt 7 [18446744073709551615, 12] = Some (5, [])"
    by (simp add: spec_threshold_def WORD_MAX_def)
  have thr: "\<not> spec_threshold 7 < 12"
    by (simp add: spec_threshold_def WORD_MAX_def)
  have lp: "getrandom_loop 0 [short 3 0, full 12] = Inr (12, 0, [])"
    by (simp add: short_def full_def)
  note th = randInt_refines_spec [OF nz, of "[18446744073709551615, 12]" "[short 3 0, full 12]"]
  from th sp have "randInt 7 [full 18446744073709551615, full 12] = Inr (5, 0, [])"
    by simp
  moreover from th lp thr have "randInt 7 [short 3 0, full 12] = Inr (5, 0, [])"
    by simp
  ultimately show ?thesis
    using nz sp lp by simp
qed

subsection \<open>Counting the accepted words of each residue\<close>

lemma residue_class_image:
  fixes L :: nat
  assumes "K < L"
  shows "{n. n \<le> q * L \<and> n mod L = K} = (\<lambda>i. i * L + K) ` {i. i * L + K \<le> q * L}"
proof (intro equalityI subsetI)
  fix n assume "n \<in> {n. n \<le> q * L \<and> n mod L = K}"
  then have le: "n \<le> q * L" and m: "n mod L = K"
    by auto
  have "n = (n div L) * L + K"
    using m div_mult_mod_eq [of n L] by simp
  with le show "n \<in> (\<lambda>i. i * L + K) ` {i. i * L + K \<le> q * L}"
    by (intro image_eqI [where x = "n div L"]) auto
next
  fix n assume "n \<in> (\<lambda>i. i * L + K) ` {i. i * L + K \<le> q * L}"
  then obtain i where "n = i * L + K" "i * L + K \<le> q * L"
    by auto
  with assms show "n \<in> {n. n \<le> q * L \<and> n mod L = K}"
    by simp
qed

lemma inj_on_affine: "0 < (L::nat) \<Longrightarrow> inj_on (\<lambda>i. i * L + K) A"
  by (auto simp: inj_on_def)

lemma index_set_zero: "0 < (L::nat) \<Longrightarrow> {i. i * L + 0 \<le> q * L} = {..q}"
  by auto

lemma index_set_pos:
  fixes L :: nat
  assumes "0 < K" "K < L"
  shows "{i. i * L + K \<le> q * L} = {..<q}"
proof (intro equalityI subsetI)
  fix i assume "i \<in> {i. i * L + K \<le> q * L}"
  then have "i * L + K \<le> q * L"
    by simp
  with assms(1) have "i * L < q * L"
    by linarith
  then show "i \<in> {..<q}"
    by simp
next
  fix i assume "i \<in> {..<q}"
  then have "Suc i \<le> q"
    by simp
  then have "Suc i * L \<le> q * L"
    by (rule mult_le_mono1)
  with assms show "i \<in> {i. i * L + K \<le> q * L}"
    by simp
qed

text \<open>Up to a multiple \<open>q * L\<close>, inclusive: \<open>q + 1\<close> numbers are \<open>0\<close> modulo \<open>L\<close>.\<close>

lemma card_residue_zero: "0 < L \<Longrightarrow> card {n::nat. n \<le> q * L \<and> n mod L = 0} = q + 1"
  using residue_class_image [of 0 L q]
  by (simp add: index_set_zero card_image inj_on_affine [of L 0, simplified])

text \<open>And only \<open>q\<close> numbers are \<open>K\<close> modulo \<open>L\<close>, for each other residue \<open>K\<close>.\<close>

lemma card_residue_pos:
  "0 < K \<Longrightarrow> K < L \<Longrightarrow> card {n::nat. n \<le> q * L \<and> n mod L = K} = q"
  using residue_class_image [of K L q]
  by (simp add: index_set_pos card_image inj_on_affine)

text \<open>The words that a single draw turns into the result \<open>k\<close>.\<close>

lemma accepted_set:
  "limit \<noteq> 0 \<Longrightarrow>
   {buf. randInt limit [full buf] = Inr (k, 0, [])}
     = {buf. buf \<le> MAX_size div limit * limit \<and> buf mod limit = k}"
  by (auto simp: randInt_full randInt_Nil not_less)

lemma unat_accepted_image:
  "unat ` {buf. buf \<le> MAX_size div limit * limit \<and> buf mod limit = k}
     = {n. n \<le> (2 ^ 64 - 1) div unat limit * unat limit \<and> n mod unat limit = unat k}"
    (is "unat ` ?A = ?B")
proof (intro equalityI subsetI)
  fix n assume "n \<in> unat ` ?A"
  then obtain buf where "n = unat buf" "buf \<le> MAX_size div limit * limit" "buf mod limit = k"
    by auto
  then show "n \<in> ?B"
    by (auto simp: word_le_nat_alt unat_threshold unat_mod)
next
  fix n assume "n \<in> ?B"
  then have le: "n \<le> (2 ^ 64 - 1) div unat limit * unat limit"
    and m: "n mod unat limit = unat k"
    by auto
  have "(2 ^ 64 - 1) div unat limit * unat limit \<le> (2 ^ 64 - 1 :: nat)"
    by (rule div_times_less_eq_dividend)
  with le have "n \<le> 2 ^ 64 - 1"
    by (rule order_trans)
  then have "n < 2 ^ LENGTH(64)"
    by simp
  with refl have u: "unat (word_of_nat n :: size_t) = n"
    by (rule of_nat_inverse)
  have a1: "(word_of_nat n :: size_t) \<le> MAX_size div limit * limit"
    using le by (simp only: word_le_nat_alt unat_threshold u)
  have "unat ((word_of_nat n :: size_t) mod limit) = unat k"
    using m by (simp only: unat_mod u)
  then have a2: "(word_of_nat n :: size_t) mod limit = k"
    by (simp only: word_unat_eq_iff)
  from a1 a2 have mem: "(word_of_nat n :: size_t) \<in> ?A"
    by simp
  from u [symmetric] mem show "n \<in> unat ` ?A"
    by (rule image_eqI)
qed

lemma card_accepted:
  assumes "limit \<noteq> 0"
  shows "card {buf. randInt limit [full buf] = Inr (k, 0, [])}
         = card {n. n \<le> (2 ^ 64 - 1) div unat limit * unat limit \<and> n mod unat limit = unat k}"
proof -
  have "card (unat ` {buf :: size_t. buf \<le> MAX_size div limit * limit \<and> buf mod limit = k})
        = card {buf :: size_t. buf \<le> MAX_size div limit * limit \<and> buf mod limit = k}"
    by (rule card_image) (rule inj_onI, simp only: word_unat_eq_iff)
  then show ?thesis
    by (simp add: accepted_set [OF assms] unat_accepted_image)
qed

text \<open>
  For every \<open>limit\<close> and every residue \<open>k\<close> with \<open>0 < k < limit\<close>, one more word is
  accepted with result 0 than with result \<open>k\<close>: the comparison \<^verbatim>\<open>buf > MAX / limit * limit\<close>
  lets the multiple \<^verbatim>\<open>MAX / limit * limit\<close> itself through.
\<close>

lemma zero_class_one_more:
  assumes "k \<noteq> 0" "k < limit"
  shows "card {buf. randInt limit [full buf] = Inr (0, 0, [])}
         = card {buf. randInt limit [full buf] = Inr (k, 0, [])} + 1"
proof -
  from assms have nz: "limit \<noteq> 0"
    by auto
  from assms(1) have kp: "0 < unat k"
    by (simp add: unat_gt_0)
  from assms(2) have kl: "unat k < unat limit"
    by (simp add: word_less_nat_alt)
  then have lp: "0 < unat limit"
    by simp
  show ?thesis
    by (simp add: card_accepted [OF nz] card_residue_zero [OF lp] card_residue_pos [OF kp kl])
qed

text \<open>
  C1, at \<open>limit = 7\<close>. The threshold \<open>18446744073709551614\<close> is itself accepted and gives
  0, so the words that give 0 are one more than the words that give 1: the accepted
  words are not spread evenly over the residues.
\<close>

theorem randInt_residue_zero_favoured:
  "MAX_size div 7 * 7 = 18446744073709551614
   \<and> randInt 7 [full 18446744073709551614] = Inr (0, 0, [])
   \<and> card {buf. randInt 7 [full buf] = Inr (0, 0, [])}
       = card {buf. randInt 7 [full buf] = Inr (1, 0, [])} + 1"
proof (intro conjI)
  show "MAX_size div 7 * 7 = 18446744073709551614"
    by (simp add: MAX_size_def)
  show "randInt 7 [full 18446744073709551614] = Inr (0, 0, [])"
    by (simp add: randInt_full MAX_size_def)
  show "card {buf. randInt 7 [full buf] = Inr (0, 0, [])}
          = card {buf. randInt 7 [full buf] = Inr (1, 0, [])} + 1"
    by (rule zero_class_one_more) simp_all
qed

section \<open>Properties of main\<close>

subsection \<open>The characters to choose from\<close>

lemma class_lengths:
  "length LOWERS = 26" "length UPPERS = 26" "length NUMBERS = 10" "length SYMBOLS = 32"
  by (simp_all add: LOWERS_def UPPERS_def NUMBERS_def SYMBOLS_def)

lemma class_LENs:
  "unat LOWERS_LEN = length LOWERS" "unat UPPERS_LEN = length UPPERS"
  "unat NUMBERS_LEN = length NUMBERS" "unat SYMBOLS_LEN = length SYMBOLS"
  by (simp_all add: class_lengths LOWERS_LEN_def UPPERS_LEN_def NUMBERS_LEN_def SYMBOLS_LEN_def)

text \<open>
  The memory at \<^verbatim>\<open>passChars\<close> after the copies: with any class enabled, the terminator
  of the last copy lies one byte past the block.
\<close>

lemma prep_passChars_overrun:
  "length (snd (prep_passChars st))
     = unat (fst (prep_passChars st))
       + (if enableLower st \<or> enableUpper st \<or> enableNumber st \<or> enableSymbol st then 1 else 0)"
  by (cases "enableLower st"; cases "enableUpper st"; cases "enableNumber st";
      cases "enableSymbol st")
     (simp_all add: prep_passChars_def strcpy_def class_lengths
        LOWERS_LEN_def UPPERS_LEN_def NUMBERS_LEN_def SYMBOLS_LEN_def Let_def)

text \<open>
  C8. Whatever the four switches, the block at \<^verbatim>\<open>passChars\<close> holds the enabled classes
  one after the other in the order lower, upper, number, symbol, and its length
  \<^verbatim>\<open>passCharsLen\<close> is the sum of their lengths. With no class the block is empty, with
  the lowercase class alone it is the 26 lowercase letters, with all four it is the 94
  characters of the four classes in that order.
\<close>

theorem prep_passChars_alphabet:
  "passChars_block st
     = (if enableLower st then LOWERS else []) @ (if enableUpper st then UPPERS else [])
       @ (if enableNumber st then NUMBERS else []) @ (if enableSymbol st then SYMBOLS else [])
   \<and> unat (fst (prep_passChars st)) = length (passChars_block st)
   \<and> length (passChars_block st)
     = (if enableLower st then length LOWERS else 0) + (if enableUpper st then length UPPERS else 0)
       + (if enableNumber st then length NUMBERS else 0)
       + (if enableSymbol st then length SYMBOLS else 0)
   \<and> passChars_block \<lparr>enableLower = False, enableUpper = False, enableNumber = False,
         enableSymbol = False, passLen = len\<rparr> = []
   \<and> passChars_block \<lparr>enableLower = True, enableUpper = False, enableNumber = False,
         enableSymbol = False, passLen = len\<rparr> = ''abcdefghijklmnopqrstuvwxyz''
   \<and> passChars_block \<lparr>enableLower = True, enableUpper = True, enableNumber = True,
         enableSymbol = True, passLen = len\<rparr> = LOWERS @ UPPERS @ NUMBERS @ SYMBOLS
   \<and> length (LOWERS @ UPPERS @ NUMBERS @ SYMBOLS) = 94"
proof -
  have blk: "passChars_block st
     = (if enableLower st then LOWERS else []) @ (if enableUpper st then UPPERS else [])
       @ (if enableNumber st then NUMBERS else []) @ (if enableSymbol st then SYMBOLS else [])"
    for st
    by (cases "enableLower st"; cases "enableUpper st"; cases "enableNumber st";
        cases "enableSymbol st")
       (simp_all add: passChars_block_def prep_passChars_def strcpy_def class_lengths
          LOWERS_LEN_def UPPERS_LEN_def NUMBERS_LEN_def SYMBOLS_LEN_def Let_def)
  have len: "unat (fst (prep_passChars st))
     = (if enableLower st then length LOWERS else 0) + (if enableUpper st then length UPPERS else 0)
       + (if enableNumber st then length NUMBERS else 0)
       + (if enableSymbol st then length SYMBOLS else 0)"
    by (cases "enableLower st"; cases "enableUpper st"; cases "enableNumber st";
        cases "enableSymbol st")
       (simp_all add: prep_passChars_def class_lengths
          LOWERS_LEN_def UPPERS_LEN_def NUMBERS_LEN_def SYMBOLS_LEN_def Let_def)
  have lower: "passChars_block \<lparr>enableLower = True, enableUpper = False, enableNumber = False,
         enableSymbol = False, passLen = len\<rparr> = ''abcdefghijklmnopqrstuvwxyz''"
    by (simp add: blk LOWERS_def)
  show ?thesis
    by (simp add: lower) (simp add: blk len class_lengths)
qed

subsection \<open>The length argument\<close>

text \<open>
  C7, at the arguments \<^verbatim>\<open>passgen abc\<close> (with 4096 bytes for the allocator to hand
  out). \<^verbatim>\<open>strtol\<close> finds no digit, returns 0 and
  stores nothing into \<^verbatim>\<open>errno\<close>, so the test \<^verbatim>\<open>if (errno)\<close> does not see the failed
  conversion: the length becomes 0, nothing is written to standard error and the run
  prints an empty line.
\<close>

theorem nonnumeric_length_accepted:
  "parseOption ''abc'' = OPTION_UNRECOGNIZED
   \<and> strtol ''abc'' = (0, None)
   \<and> handle_flags defaults [] (drop 1 [''passgen'', ''abc'']) = Go (defaults\<lparr>passLen := 0\<rparr>) []
   \<and> main [''passgen'', ''abc''] 4096 []
       = Inr \<lparr>status = 0, out = [NL], err = [], overrun = True\<rparr>"
proof -
  have p: "parseOption ''abc'' = OPTION_UNRECOGNIZED"
    by (simp add: parseOption_def at_def)
  have s: "strtol ''abc'' = (0, None)"
    by (simp add: strtol_def at_def isspace_def isdigit_def TAB_def NL_def)
  have h: "handle_flags defaults [] (drop 1 [''passgen'', ''abc'']) = Go (defaults\<lparr>passLen := 0\<rparr>) []"
    by (simp add: p s)
  have c: "prep_passChars (defaults\<lparr>passLen := 0\<rparr>) = (62, LOWERS @ UPPERS @ NUMBERS @ [NUL])"
    by (simp add: prep_passChars_def strcpy_def class_lengths defaults_def
          LOWERS_LEN_def UPPERS_LEN_def NUMBERS_LEN_def)
  have a: "assemble (defaults\<lparr>passLen := 0\<rparr>) 4096 [] = Inr (Completed, [NUL], [])"
    by (simp add: assemble_def c calloc_def PTRDIFF_MAX_def select.simps)
  have "main [''passgen'', ''abc''] 4096 []
          = Inr \<lparr>status = 0, out = [NL], err = [], overrun = True\<rparr>"
    using h by (simp add: main_def build_password_def a c puts_def class_lengths)
  with p s h show ?thesis
    by simp
qed

text \<open>
  What the test \<^verbatim>\<open>if (errno)\<close> does catch is a number out of the range of \<^verbatim>\<open>long\<close>:
  then the length is the default and the argument is reported.
\<close>

lemma out_of_range_length_rejected:
  "handle_flags defaults [] (drop 1 [''passgen'', ''99999999999999999999''])
     = Go defaults [Fputs ''Unrecognized option: '', Fputs ''99999999999999999999'', Putc NL]"
proof -
  have p: "parseOption ''99999999999999999999'' = OPTION_UNRECOGNIZED"
    by (simp add: parseOption_def at_def)
  have s: "strtol ''99999999999999999999'' = (LONG_MAX, Some ERANGE)"
    by (simp add: strtol_def at_def isspace_def isdigit_def digits_value_def TAB_def NL_def
          LONG_MAX_def)
  show ?thesis
    by (simp add: p s ERANGE_def badOpt_def defaults_def)
qed

subsection \<open>The selection loop and the index draws\<close>

lemma index_draws_length:
  "index_draws limit n ds = Inr (e, rs, ds') \<Longrightarrow>
   length rs \<le> n \<and> (e = 0 \<longrightarrow> length rs = n)"
proof (induction n arbitrary: ds e rs ds')
  case 0
  then show ?case by simp
next
  case (Suc n)
  show ?case
  proof (cases "randInt limit ds")
    case (Inl f)
    with Suc.prems show ?thesis by simp
  next
    case (Inr t)
    obtain r errno rest where t: "t = (r, errno, rest)"
      by (cases t) auto
    show ?thesis
    proof (cases "errno \<noteq> 0")
      case True
      with Suc.prems Inr t show ?thesis by auto
    next
      case False
      with Suc.prems Inr t obtain rs' where
        rec: "index_draws limit n rest = Inr (e, rs', ds')" and rs: "rs = r # rs'"
        by (auto split: sum.splits)
      from Suc.IH [OF rec] rs show ?thesis by simp
    qed
  qed
qed

text \<open>
  The selection loop does what the index draws say: it faults where they do, it leaves
  through \<^verbatim>\<open>goto cleanup\<close> exactly when one of them left \<^verbatim>\<open>errno\<close> set, and it has
  then written the characters of the indices drawn before. The two checks of the loop
  never fail, since an index drawn without error is below \<^verbatim>\<open>passCharsLen\<close>.
\<close>

lemma select_index_draws:
  "i + n = passLen' \<Longrightarrow> passLen' \<le> length password \<Longrightarrow>
   select mem passCharsLen passLen' i password ds =
     (case index_draws passCharsLen n ds of
        Inl f \<Rightarrow> Inl f
      | Inr (e, rs, ds') \<Rightarrow>
          Inr (if e = 0 then Completed else Aborted e,
               take i password @ map (\<lambda>r. mem ! unat r) rs @ drop (i + length rs) password,
               ds'))"
proof (induction n arbitrary: i password ds)
  case 0
  then have "\<not> i < passLen'"
    by simp
  then show ?case
    by (subst select.simps) simp
next
  case (Suc n)
  then have lt: "i < passLen'" and il: "i < length password"
    by simp_all
  show ?case
  proof (cases "randInt passCharsLen ds")
    case (Inl f)
    with lt show ?thesis
      by (simp add: select.simps [of mem passCharsLen passLen' i password ds])
  next
    case (Inr t)
    obtain r errno rest where t: "t = (r, errno, rest)"
      by (cases t) auto
    show ?thesis
    proof (cases "errno \<noteq> 0")
      case True
      with lt Inr t show ?thesis
        by (simp add: select.simps [of mem passCharsLen passLen' i password ds])
    next
      case False
      then have e0: "errno = 0"
        by simp
      from Inr t e0 have nz: "passCharsLen \<noteq> 0"
        by (auto dest: randInt_zero_result)
      with Inr t have r: "r < passCharsLen"
        by (auto dest: randInt_bound)
      let ?pw = "password[i := mem ! unat r]"
      from Suc.prems have "Suc i + n = passLen'" and "passLen' \<le> length ?pw"
        by simp_all
      note ih = Suc.IH [OF this, of rest]
      have tk: "take (Suc i) ?pw = take i password @ [mem ! unat r]"
        using il by (simp add: take_Suc_conv_app_nth)
      have dr: "drop (Suc (i + k)) ?pw = drop (Suc (i + k)) password" for k
        by simp
      from lt Inr t e0 r il
      have "select mem passCharsLen passLen' i password ds
              = select mem passCharsLen passLen' (Suc i) ?pw rest"
        by (simp add: select.simps [of mem passCharsLen passLen' i password ds])
      with ih Inr t e0 show ?thesis
        by (simp add: tk dr split: sum.splits)
    qed
  qed
qed

subsection \<open>From the index draws to the run\<close>

lemma list_update_numeral:
  "(x # xs)[numeral k := y] = x # xs[pred_numeral k := y]"
  by (simp add: numeral_eq_Suc)

lemma replicate_numeral: "replicate (numeral k) x = x # replicate (pred_numeral k) x"
  by (simp add: numeral_eq_Suc)

lemma index_draws_numeral:
  "index_draws limit (numeral k) ds =
     (case randInt limit ds of
        Inl f \<Rightarrow> Inl f
      | Inr (r, errno, ds') \<Rightarrow>
          if errno \<noteq> 0 then Inr (errno, [], ds')
          else (case index_draws limit (pred_numeral k) ds' of
                  Inl f \<Rightarrow> Inl f
                | Inr (e, rs, ds'') \<Rightarrow> Inr (e, r # rs, ds'')))"
  by (simp add: numeral_eq_Suc)

lemma list_update_replicate_same: "(replicate n x)[i := x] = replicate n x"
  by (induction n arbitrary: i) (auto split: nat.splits)

lemma unat_passLen_plus_1:
  fixes w :: size_t
  assumes "w + 1 \<noteq> 0"
  shows "unat (w + 1) = Suc (unat w)"
proof -
  from assms have "1 + w \<noteq> 0"
    by (simp add: add.commute)
  then have "unat (1 + w) = Suc (unat w)"
    by (rule unatSuc)
  then show ?thesis
    by (simp add: add.commute)
qed

text \<open>
  When both blocks are granted and \<^verbatim>\<open>passLen+1\<close> did not wrap, the run from
  \<^verbatim>\<open>BUILD PASSWORD\<close> on is determined by the index draws: it stops where they fault;
  when one of them left \<^verbatim>\<open>errno\<close> set it returns 0 after \<^verbatim>\<open>perror\<close>, with nothing on
  standard output; otherwise it returns 0 after \<^verbatim>\<open>puts\<close> of the selected characters.
\<close>

lemma build_password_index_draws:
  assumes g1: "calloc heap (unat (fst (prep_passChars st)))"
    and g2: "calloc (heap - unat (fst (prep_passChars st))) (unat (passLen st + 1))"
    and nw: "passLen st + 1 \<noteq> 0"
  shows "build_password st stderr heap ds =
     (case index_draws (fst (prep_passChars st)) (unat (passLen st)) ds of
        Inl f \<Rightarrow> Inl f
      | Inr (e, rs, ds') \<Rightarrow>
          Inr \<lparr>status = 0,
               out = (if e = 0
                      then puts (map (\<lambda>r. snd (prep_passChars st) ! unat r) rs @ [NUL])
                      else []),
               err = (if e = 0 then stderr
                      else stderr @ [Perror ''Failed to get random'' e]),
               overrun = (unat (fst (prep_passChars st)) < length (snd (prep_passChars st)))\<rparr>)"
proof -
  let ?L = "unat (passLen st)"
  let ?pcl = "fst (prep_passChars st)"
  let ?mem = "snd (prep_passChars st)"
  from nw have len: "unat (passLen st + 1) = Suc ?L"
    by (rule unat_passLen_plus_1)
  have asm: "assemble st heap ds = select ?mem ?pcl ?L 0 (replicate (Suc ?L) NUL) ds"
    using g1 g2
    by (simp add: assemble_def split_beta len list_update_replicate_same del: replicate.simps)
  have sel: "select ?mem ?pcl ?L 0 (replicate (Suc ?L) NUL) ds =
     (case index_draws ?pcl ?L ds of
        Inl f \<Rightarrow> Inl f
      | Inr (e, rs, ds') \<Rightarrow>
          Inr (if e = 0 then Completed else Aborted e,
               take 0 (replicate (Suc ?L) NUL) @ map (\<lambda>r. ?mem ! unat r) rs
                 @ drop (0 + length rs) (replicate (Suc ?L) NUL),
               ds'))"
    by (rule select_index_draws) simp_all
  show ?thesis
  proof (cases "index_draws ?pcl ?L ds")
    case (Inl f)
    with asm sel show ?thesis
      by (simp add: build_password_def split_beta)
  next
    case (Inr t)
    obtain e rs ds' where t: "t = (e, rs, ds')"
      by (cases t) auto
    from index_draws_length [OF Inr [unfolded t]]
    have full: "e = 0 \<longrightarrow> length rs = ?L"
      by simp
    have tail: "replicate (Suc 0) NUL = [NUL]"
      by simp
    from asm sel Inr t full show ?thesis
      by (simp add: build_password_def split_beta tail del: replicate.simps)
  qed
qed

text \<open>Without the blocks the run does not get to the draws.\<close>

lemma build_password_no_block:
  assumes "\<not> (calloc heap (unat (fst (prep_passChars st)))
               \<and> calloc (heap - unat (fst (prep_passChars st))) (unat (passLen st + 1))
               \<and> passLen st + 1 \<noteq> 0)"
  shows "\<exists>f. build_password st stderr heap ds = Inl f"
  using assms by (auto simp: build_password_def assemble_def split_beta)



subsection \<open>When calloc returns the null pointer\<close>

text \<open>
  A negative length argument is converted to a huge \<^verbatim>\<open>size_t\<close>: for \<^verbatim>\<open>passgen -5\<close> the
  request for \<^verbatim>\<open>password\<close> is above \<^verbatim>\<open>PTRDIFF_MAX\<close>, no allocator grants it, and the
  run ends in the write through the null pointer, whatever the entropy source would
  have delivered.
\<close>

lemma negative_length_null_dereference:
  "main [''passgen'', ''-5''] heap ds = Inl NullDereference"
proof -
  have p: "parseOption ''-5'' = OPTION_UNRECOGNIZED"
    by (simp add: parseOption_def at_def)
  have s: "strtol ''-5'' = (- 5, None)"
    by (simp add: strtol_def at_def isspace_def isdigit_def digits_value_def TAB_def NL_def
          LONG_MAX_def LONG_MIN_def)
  have h: "handle_flags defaults [] (drop 1 [''passgen'', ''-5''])
             = Go (defaults\<lparr>passLen := - 5\<rparr>) []"
    by (simp add: p s)
  have "unat (- 5 + 1 :: size_t) = 18446744073709551612"
    by simp
  then have "\<not> calloc k (unat (passLen (defaults\<lparr>passLen := - 5\<rparr>) + 1))" for k
    by (simp add: calloc_def PTRDIFF_MAX_def)
  then have "assemble (defaults\<lparr>passLen := - 5\<rparr>) heap ds = Inl NullDereference"
    by (simp add: assemble_def split_beta)
  with h show ?thesis
    by (simp add: main_def build_password_def split_beta)
qed

subsection \<open>Failure of the entropy source\<close>

text \<open>
  C6. Whatever the arguments, the length and what the allocator has left: when one of
  the index draws of the run fails (a call \<^verbatim>\<open>randInt(passCharsLen)\<close> among the
  \<^verbatim>\<open>passLen\<close> calls returns with \<^verbatim>\<open>errno\<close> set, after the indices \<open>rs\<close> were drawn), a
  run that returns has written nothing to standard output; and with both blocks granted
  the run does return, with the \<^verbatim>\<open>perror\<close> message on standard error and nothing on
  standard output, however many characters were selected before the failure.
\<close>

theorem hard_failure_emits_nothing:
  assumes "handle_flags defaults [] (drop 1 argv) = Go st stderr"
    and "index_draws (fst (prep_passChars st)) (unat (passLen st)) ds = Inr (e, rs, ds')"
    and "e \<noteq> 0"
  shows "(\<forall>r. main argv heap ds = Inr r \<longrightarrow> out r = [])
     \<and> (calloc heap (unat (fst (prep_passChars st)))
          \<and> calloc (heap - unat (fst (prep_passChars st))) (unat (passLen st + 1))
          \<and> passLen st + 1 \<noteq> 0
        \<longrightarrow> main argv heap ds =
              Inr \<lparr>status = 0, out = [],
                   err = stderr @ [Perror ''Failed to get random'' e],
                   overrun = (unat (fst (prep_passChars st))
                                < length (snd (prep_passChars st)))\<rparr>)"
proof (cases "calloc heap (unat (fst (prep_passChars st)))
          \<and> calloc (heap - unat (fst (prep_passChars st))) (unat (passLen st + 1))
          \<and> passLen st + 1 \<noteq> 0")
  case True
  then have "build_password st stderr heap ds =
      Inr \<lparr>status = 0, out = [],
           err = stderr @ [Perror ''Failed to get random'' e],
           overrun = (unat (fst (prep_passChars st)) < length (snd (prep_passChars st)))\<rparr>"
    using assms(2,3) by (simp add: build_password_index_draws)
  with assms(1) show ?thesis
    by (simp add: main_def)
next
  case False
  then obtain f where "build_password st stderr heap ds = Inl f"
    using build_password_no_block [of heap st stderr ds] by blast
  with assms(1) have "main argv heap ds = Inl f"
    by (simp add: main_def)
  with False show ?thesis
    by simp
qed

theorem hard_failure_emits_nothing_witness:
  "handle_flags defaults [] (drop 1 [''passgen'', ''3'']) = Go (defaults\<lparr>passLen := 3\<rparr>) []
   \<and> prep_passChars (defaults\<lparr>passLen := 3\<rparr>) = (62, LOWERS @ UPPERS @ NUMBERS @ [NUL])
   \<and> index_draws 62 3 [full 5, failed EINTR, full 61] = Inr (EINTR, [5], [full 61])
   \<and> EINTR \<noteq> 0
   \<and> calloc 4096 62 \<and> calloc (4096 - 62) 4
   \<and> main [''passgen'', ''3''] 4096 [full 5, failed EINTR, full 61]
       = Inr \<lparr>status = 0, out = [], err = [Perror ''Failed to get random'' EINTR],
              overrun = True\<rparr>"
proof -
  have p: "parseOption ''3'' = OPTION_UNRECOGNIZED"
    by (simp add: parseOption_def at_def)
  have s: "strtol ''3'' = (3, None)"
    by (simp add: strtol_def at_def isspace_def isdigit_def digits_value_def TAB_def NL_def
          LONG_MAX_def LONG_MIN_def)
  have h: "handle_flags defaults [] (drop 1 [''passgen'', ''3'']) = Go (defaults\<lparr>passLen := 3\<rparr>) []"
    by (simp add: p s)
  have c: "prep_passChars (defaults\<lparr>passLen := 3\<rparr>) = (62, LOWERS @ UPPERS @ NUMBERS @ [NUL])"
    by (simp add: prep_passChars_def strcpy_def class_lengths defaults_def
          LOWERS_LEN_def UPPERS_LEN_def NUMBERS_LEN_def)
  have d: "index_draws 62 3 [full 5, failed EINTR, full 61] = Inr (EINTR, [5], [full 61])"
    by (simp add: index_draws_numeral randInt_full randInt_error failed_def EINTR_def
          MAX_size_def)
  have e: "EINTR \<noteq> 0"
    by (simp add: EINTR_def)
  have g: "calloc 4096 62 \<and> calloc (4096 - 62) 4"
    by (simp add: calloc_def PTRDIFF_MAX_def)
  have d': "index_draws (fst (prep_passChars (defaults\<lparr>passLen := 3\<rparr>)))
              (unat (passLen (defaults\<lparr>passLen := 3\<rparr>))) [full 5, failed EINTR, full 61]
            = Inr (EINTR, [5], [full 61])"
    using d by (simp add: c)
  from hard_failure_emits_nothing [OF h d' e, of 4096] g
  have "main [''passgen'', ''3''] 4096 [full 5, failed EINTR, full 61]
       = Inr \<lparr>status = 0, out = [], err = [Perror ''Failed to get random'' EINTR],
              overrun = True\<rparr>"
    by (simp add: c class_lengths)
  with h c d e g show ?thesis
    by simp
qed

subsection \<open>The exit status\<close>




end
